theory Spec2Isabelle
  imports Main "HOL-Library.AList"
begin

section \<open>Values received from the wire\<close>

text \<open>
  A client message is a JSON value; a field that is absent reads as \<open>undefined\<close>.
  Numbers are modelled as integers (fractions play no part in the handlers), strings as
  lists of 8-bit code units.
\<close>

datatype jsval =
    JUndefined
  | JNull
  | JBool bool
  | JNum int
  | JStr string
  | JArr "jsval list"
  | JObj "(string \<times> jsval) list"

datatype failure =
    TypeError
  | Inherited_property

text \<open>JavaScript truthiness, as used by \<open>!x\<close>, \<open>x && y\<close> and \<open>if (x)\<close>.\<close>

fun truthy :: "jsval \<Rightarrow> bool" where
  "truthy JUndefined = False"
| "truthy JNull = False"
| "truthy (JBool b) = b"
| "truthy (JNum n) = (n \<noteq> 0)"
| "truthy (JStr s) = (s \<noteq> [])"
| "truthy (JArr xs) = True"
| "truthy (JObj fs) = True"

fun nullish :: "jsval \<Rightarrow> bool" where
  "nullish JUndefined = True"
| "nullish JNull = True"
| "nullish v = False"

text \<open>\<open>a ?? b\<close>\<close>

definition nullish_or :: "jsval \<Rightarrow> jsval \<Rightarrow> jsval" where
  "nullish_or a b = (if nullish a then b else a)"

text \<open>\<open>typeof v === "string"\<close>\<close>

fun is_string :: "jsval \<Rightarrow> bool" where
  "is_string (JStr s) = True"
| "is_string v = False"

text \<open>
  Reading one of the handlers' parameter names (\<open>room\<close>, \<open>text\<close>, \<open>to\<close>, \<open>sdp\<close>,
  \<open>candidate\<close>) from a value: an object gives the field (the first binding of the name in
  the list) or \<open>undefined\<close>; a primitive or an array has no property of these names.
\<close>

fun get_prop :: "jsval \<Rightarrow> string \<Rightarrow> jsval" where
  "get_prop (JObj fs) k = (case map_of fs k of None \<Rightarrow> JUndefined | Some v \<Rightarrow> v)"
| "get_prop v k = JUndefined"

text \<open>
  The parameter pattern \<open>({ room, text }) => ...\<close>: destructuring \<open>undefined\<close> or \<open>null\<close>
  throws a TypeError before the body runs.
\<close>

definition destructure :: "jsval \<Rightarrow> failure + (string \<Rightarrow> jsval)" where
  "destructure payload = (if nullish payload then Inl TypeError else Inr (get_prop payload))"

subsection \<open>\<open>String(v)\<close> and \<open>trim\<close>\<close>

definition digit_char :: "nat \<Rightarrow> char" where
  "digit_char d = char_of (48 + d)"

function show_nat :: "nat \<Rightarrow> string" where
  "show_nat n = (if n < 10 then [digit_char n] else show_nat (n div 10) @ [digit_char (n mod 10)])"
  by pat_completeness auto
termination
  by (relation "measure id") auto

definition show_int :: "int \<Rightarrow> string" where
  "show_int n = (if n < 0 then CHR ''-'' # show_nat (nat (- n)) else show_nat (nat n))"

fun join_commas :: "string list \<Rightarrow> string" where
  "join_commas [] = []"
| "join_commas [x] = x"
| "join_commas (x # y # ys) = x @ '','' @ join_commas (y # ys)"

fun String_js :: "jsval \<Rightarrow> string" where
  "String_js JUndefined = ''undefined''"
| "String_js JNull = ''null''"
| "String_js (JBool b) = (if b then ''true'' else ''false'')"
| "String_js (JNum n) = show_int n"
| "String_js (JStr s) = s"
| "String_js (JArr xs) = join_commas (map (\<lambda>x. if nullish x then [] else String_js x) xs)"
| "String_js (JObj fs) = ''[object Object]''"

text \<open>White space and line terminators among the 8-bit code units.\<close>

definition is_space :: "char \<Rightarrow> bool" where
  "is_space c = (of_char c \<in> {9, 10, 11, 12, 13, 32, 160 :: nat})"

definition trim :: "string \<Rightarrow> string" where
  "trim s = rev (dropWhile is_space (rev (dropWhile is_space s)))"

section \<open>Server state\<close>

type_synonym sid = string

record RoomState =
  startedAt :: "int option"
  duration :: int

text \<open>
  \<open>sockets\<close> is \<open>io.sockets.sockets\<close>, holding for each live connection the value of
  \<open>handshake.auth?.name\<close>; \<open>adapterRooms\<close> is \<open>io.sockets.adapter.rooms\<close>, a Map from
  room name to a Set of socket ids (a list without duplicates, in insertion order);
  \<open>sids\<close> is the adapter's Map from socket id to the Set of its rooms, which
  \<open>socket.rooms\<close> reads; \<open>rooms\<close> is the application's own \<open>rooms\<close> record.
\<close>

record server =
  sockets :: "sid \<rightharpoonup> jsval"
  adapterRooms :: "string \<rightharpoonup> sid list"
  sids :: "(sid \<times> string list) list"
  rooms :: "string \<rightharpoonup> RoomState"

definition init :: server where
  "init = \<lparr>sockets = Map.empty, adapterRooms = Map.empty, sids = [], rooms = Map.empty\<rparr>"

datatype event =
    NeedOffer sid
  | Participants "(sid \<times> string) list"
  | TimerStart int int
  | TimerState "int option" int
  | Offer sid jsval
  | Answer sid jsval
  | IceCandidate sid jsval
  | Chat string sid string

datatype addr =
    Io_to jsval
  | Socket_to sid string
  | Socket_emit sid

text \<open>
  One call of \<open>emit\<close>: how it was addressed, the connections the adapter hands the packet
  to (each once, in order), and the event.
\<close>

record emission =
  target :: addr
  receivers :: "sid list"
  ev :: event

section \<open>The socket.io operations the handlers call\<close>

text \<open>
  The server runs on socket.io (version 4, in-memory adapter). Its operations are modelled
  as the library documents them: each socket is in the room named by its own id;
  \<open>io.to(x).emit\<close> reaches every socket of the addressed rooms once, \<open>socket.to(room).emit\<close>
  every socket of the room but the sender, \<open>socket.emit\<close> the socket itself; the
  \<open>disconnecting\<close> event fires before the socket leaves its rooms.
\<close>

text \<open>\<open>Set.add\<close> on an insertion-ordered set.\<close>

definition set_add :: "'a \<Rightarrow> 'a list \<Rightarrow> 'a list" where
  "set_add x xs = (if x \<in> set xs then xs else xs @ [x])"

text \<open>\<open>io.sockets.adapter.rooms.get(room) ?? new Set()\<close>\<close>

definition members :: "server \<Rightarrow> string \<Rightarrow> sid list" where
  "members s room = (case adapterRooms s room of None \<Rightarrow> [] | Some ms \<Rightarrow> ms)"

text \<open>\<open>socket.rooms\<close>\<close>

definition socket_rooms :: "server \<Rightarrow> sid \<Rightarrow> string list" where
  "socket_rooms s i = (case map_of (sids s) i of None \<Rightarrow> [] | Some rs \<Rightarrow> rs)"

text \<open>\<open>socket.join(room)\<close>: the adapter records the room for the socket and the socket in
  the room, creating the room when it is new; both are sets.\<close>

definition socket_join :: "sid \<Rightarrow> string \<Rightarrow> server \<Rightarrow> server" where
  "socket_join i room s =
     s\<lparr>sids := AList.update i (set_add room (socket_rooms s i)) (sids s),
       adapterRooms := (adapterRooms s)(room \<mapsto> set_add i (members s room))\<rparr>"

text \<open>The adapter removes a socket from one room and drops the room when it is empty.\<close>

definition adapter_del :: "sid \<Rightarrow> string \<Rightarrow> server \<Rightarrow> server" where
  "adapter_del i room s =
     (case adapterRooms s room of
        None \<Rightarrow> s
      | Some ms \<Rightarrow>
          (let ms' = removeAll i ms
           in if ms' = [] then s\<lparr>adapterRooms := (adapterRooms s)(room := None)\<rparr>
              else s\<lparr>adapterRooms := (adapterRooms s)(room \<mapsto> ms')\<rparr>))"

text \<open>\<open>socket.leaveAll()\<close>, run by the library after the \<open>disconnecting\<close> listeners.\<close>

definition leaveAll :: "sid \<Rightarrow> server \<Rightarrow> server" where
  "leaveAll i s =
     (fold (adapter_del i) (socket_rooms s i) s)\<lparr>sids := AList.delete i (sids s)\<rparr>"

text \<open>
  The rooms an emission is addressed to: \<open>to(x)\<close> takes one room or an array of rooms.
\<close>

fun room_keys :: "jsval \<Rightarrow> jsval list" where
  "room_keys (JArr xs) = xs"
| "room_keys v = [v]"

text \<open>Room names are strings, so no other value is a key of the adapter's Map.\<close>

fun key_members :: "server \<Rightarrow> jsval \<Rightarrow> sid list" where
  "key_members s (JStr r) = members s r"
| "key_members s v = []"

text \<open>
  The sockets a broadcast reaches: the members of the addressed rooms, each once, when
  rooms are given, and every connected socket when none is; without the excluded ids and
  without ids that have no live socket.
\<close>

definition broadcast_to :: "server \<Rightarrow> jsval \<Rightarrow> sid list \<Rightarrow> sid list" where
  "broadcast_to s to except =
     (let ks = room_keys to;
          ids = (if ks = [] then map fst (sids s)
                 else remdups (concat (map (key_members s) ks)))
      in filter (\<lambda>i. i \<notin> set except \<and> sockets s i \<noteq> None) ids)"

text \<open>\<open>io.to(x).emit(e)\<close>\<close>

definition io_to_emit :: "jsval \<Rightarrow> event \<Rightarrow> server \<Rightarrow> emission" where
  "io_to_emit to e s = \<lparr>target = Io_to to, receivers = broadcast_to s to [], ev = e\<rparr>"

text \<open>\<open>socket.to(room).emit(e)\<close>: the room without the sender.\<close>

definition socket_to_emit :: "sid \<Rightarrow> string \<Rightarrow> event \<Rightarrow> server \<Rightarrow> emission" where
  "socket_to_emit i room e s =
     \<lparr>target = Socket_to i room, receivers = broadcast_to s (JStr room) [i], ev = e\<rparr>"

text \<open>\<open>socket.emit(e)\<close>\<close>

definition socket_emit :: "sid \<Rightarrow> event \<Rightarrow> emission" where
  "socket_emit i e = \<lparr>target = Socket_emit i, receivers = [i], ev = e\<rparr>"

text \<open>A new connection: the namespace registers the socket, which joins the room named
  by its own id.\<close>

definition connect :: "sid \<Rightarrow> jsval \<Rightarrow> server \<Rightarrow> server" where
  "connect i auth_name s = socket_join i i (s\<lparr>sockets := (sockets s)(i \<mapsto> auth_name)\<rparr>)"

section \<open>The application\<close>

text \<open>
  \<open>rooms\<close> is a plain object used as a dictionary, so \<open>rooms[room]\<close> also finds the members
  every object inherits from \<open>Object.prototype\<close>. A join whose room name is one of these
  names reads such a member instead of a room record; the model stops there with
  \<open>Inherited_property\<close> and does not follow that path.
\<close>

definition Object_prototype_names :: "string list" where
  "Object_prototype_names =
     [''constructor'', ''__proto__'', ''__defineGetter__'', ''__defineSetter__'',
      ''__lookupGetter__'', ''__lookupSetter__'', ''hasOwnProperty'', ''isPrototypeOf'',
      ''propertyIsEnumerable'', ''toLocaleString'', ''toString'', ''valueOf'']"

datatype lookup =
    Missing
  | Record RoomState
  | Inherited

text \<open>\<open>rooms[room]\<close>\<close>

definition rooms_get :: "server \<Rightarrow> string \<Rightarrow> lookup" where
  "rooms_get s room =
     (case rooms s room of
        Some roomState \<Rightarrow> Record roomState
      | None \<Rightarrow> if room \<in> set Object_prototype_names then Inherited else Missing)"

text \<open>\<open>typeof s?.handshake?.auth?.name === "string" ? s.handshake.auth.name : "Guest"\<close>,
  for a socket looked up by id, and the \<open>displayName\<close> of a connection.\<close>

fun display_name :: "jsval option \<Rightarrow> string" where
  "display_name (Some (JStr nm)) = nm"
| "display_name v = ''Guest''"

definition broadcastParticipants :: "string \<Rightarrow> server \<Rightarrow> emission" where
  "broadcastParticipants room s =
     (let roomSet = members s room;
          list = map (\<lambda>sid. (sid, display_name (sockets s sid))) roomSet
      in io_to_emit (JStr room) (Participants list) s)"

subsection \<open>chat\<close>

definition on_chat :: "sid \<Rightarrow> jsval \<Rightarrow> server \<Rightarrow> failure + server \<times> emission list" where
  "on_chat i payload s =
     (case destructure payload of
        Inl e \<Rightarrow> Inl e
      | Inr field \<Rightarrow>
          (let room = field ''room''; text = field ''text''
           in if \<not> truthy room \<or> \<not> is_string room then Inr (s, [])
              else
                (let msg = trim (String_js (nullish_or text (JStr [])))
                 in if msg = [] then Inr (s, [])
                    else Inr (s, [io_to_emit room (Chat (display_name (sockets s i)) i msg) s]))))"

subsection \<open>join\<close>

text \<open>Initialize room state if missing.\<close>

definition init_room :: "string \<Rightarrow> server \<Rightarrow> failure + server" where
  "init_room room s =
     (case rooms_get s room of
        Missing \<Rightarrow> Inr (s\<lparr>rooms := (rooms s)(room \<mapsto> \<lparr>startedAt = None, duration = 60\<rparr>)\<rparr>)
      | Record roomState \<Rightarrow> Inr s
      | Inherited \<Rightarrow> Inl Inherited_property)"

text \<open>\<open>!roomState.startedAt\<close> for a value of type \<open>number | null\<close>.\<close>

fun not_started :: "int option \<Rightarrow> bool" where
  "not_started None = True"
| "not_started (Some t) = (t = 0)"

text \<open>Start the timer only once, when 2 participants are present. \<open>now\<close> is \<open>Date.now()\<close>.\<close>

definition timer_rule :: "string \<Rightarrow> int \<Rightarrow> server \<Rightarrow> failure + server \<times> emission list" where
  "timer_rule room now s =
     (case rooms s room of
        None \<Rightarrow> Inl TypeError
      | Some roomState \<Rightarrow>
          (let count = length (members s room)
           in if count \<ge> 2 \<and> not_started (startedAt roomState) then
                (let roomState' = roomState\<lparr>startedAt := Some now\<rparr>;
                     s' = s\<lparr>rooms := (rooms s)(room \<mapsto> roomState')\<rparr>
                 in Inr (s', [io_to_emit (JStr room) (TimerStart now (duration roomState')) s']))
              else Inr (s, [])))"

text \<open>Always send the current timer state to the newly joined user.\<close>

definition timer_state :: "sid \<Rightarrow> string \<Rightarrow> server \<Rightarrow> failure + emission" where
  "timer_state i room s =
     (case rooms s room of
        None \<Rightarrow> Inl TypeError
      | Some roomState \<Rightarrow>
          Inr (socket_emit i (TimerState (startedAt roomState) (duration roomState))))"

definition join_room :: "sid \<Rightarrow> int \<Rightarrow> string \<Rightarrow> server \<Rightarrow> failure + server \<times> emission list" where
  "join_room i now room s =
     (case init_room room (socket_join i room s) of
        Inl e \<Rightarrow> Inl e
      | Inr s1 \<Rightarrow>
          (case timer_rule room now s1 of
             Inl e \<Rightarrow> Inl e
           | Inr (s2, started) \<Rightarrow>
               (case timer_state i room s2 of
                  Inl e \<Rightarrow> Inl e
                | Inr state \<Rightarrow>
                    Inr (s2, started @
                             [state,
                              socket_to_emit i room (NeedOffer i) s2,
                              broadcastParticipants room s2]))))"

definition on_join :: "sid \<Rightarrow> int \<Rightarrow> jsval \<Rightarrow> server \<Rightarrow> failure + server \<times> emission list" where
  "on_join i now payload s =
     (case destructure payload of
        Inl e \<Rightarrow> Inl e
      | Inr field \<Rightarrow>
          (let room = field ''room''
           in if \<not> truthy room \<or> \<not> is_string room then Inr (s, [])
              else (case room of JStr r \<Rightarrow> join_room i now r s | _ \<Rightarrow> Inr (s, []))))"

subsection \<open>WebRTC signaling\<close>

definition relay ::
  "string \<Rightarrow> (sid \<Rightarrow> jsval \<Rightarrow> event) \<Rightarrow> sid \<Rightarrow> jsval \<Rightarrow> server \<Rightarrow> failure + server \<times> emission list"
where
  "relay body mk i payload s =
     (case destructure payload of
        Inl e \<Rightarrow> Inl e
      | Inr field \<Rightarrow>
          (let to = field ''to''; data = field body
           in if truthy to \<and> truthy data then Inr (s, [io_to_emit to (mk i data) s])
              else Inr (s, [])))"

definition on_offer :: "sid \<Rightarrow> jsval \<Rightarrow> server \<Rightarrow> failure + server \<times> emission list" where
  "on_offer = relay ''sdp'' Offer"

definition on_answer :: "sid \<Rightarrow> jsval \<Rightarrow> server \<Rightarrow> failure + server \<times> emission list" where
  "on_answer = relay ''sdp'' Answer"

definition on_ice_candidate :: "sid \<Rightarrow> jsval \<Rightarrow> server \<Rightarrow> failure + server \<times> emission list" where
  "on_ice_candidate = relay ''candidate'' IceCandidate"

subsection \<open>disconnecting\<close>

text \<open>The loop over \<open>socket.rooms\<close>; the socket has not left its rooms yet when the
  listener runs.\<close>

fun disconnecting_loop :: "sid \<Rightarrow> string list \<Rightarrow> server \<Rightarrow> server \<times> emission list" where
  "disconnecting_loop i [] s = (s, [])"
| "disconnecting_loop i (room # rest) s =
     (if room = i then disconnecting_loop i rest s
      else
        (let e = broadcastParticipants room s;
             size = length (members s room);
             s' = (if size = 0 then s\<lparr>rooms := (rooms s)(room := None)\<rparr> else s);
             (s'', out) = disconnecting_loop i rest s'
         in (s'', e # out)))"

definition on_disconnecting :: "sid \<Rightarrow> server \<Rightarrow> server \<times> emission list" where
  "on_disconnecting i s = disconnecting_loop i (socket_rooms s i) s"

text \<open>A connection closes: the \<open>disconnecting\<close> listener runs, then the library takes the
  socket out of all its rooms and out of the namespace.\<close>

definition disconnect :: "sid \<Rightarrow> server \<Rightarrow> server \<times> emission list" where
  "disconnect i s =
     (let (s1, out) = on_disconnecting i s;
          s2 = leaveAll i s1
      in (s2\<lparr>sockets := (sockets s2)(i := None)\<rparr>, out))"

section \<open>Runs of the server\<close>

datatype input =
    Connect sid jsval
  | Join sid int jsval
  | ChatMsg sid jsval
  | OfferMsg sid jsval
  | AnswerMsg sid jsval
  | IceCandidateMsg sid jsval
  | Disconnect sid

text \<open>
  What the transport can deliver: a new connection gets an id that is in use neither as a
  socket id nor as a room name; messages and closes come from live connections.
\<close>

fun enabled :: "server \<Rightarrow> input \<Rightarrow> bool" where
  "enabled s (Connect i auth_name) = (sockets s i = None \<and> adapterRooms s i = None)"
| "enabled s (Join i now payload) = (sockets s i \<noteq> None)"
| "enabled s (ChatMsg i payload) = (sockets s i \<noteq> None)"
| "enabled s (OfferMsg i payload) = (sockets s i \<noteq> None)"
| "enabled s (AnswerMsg i payload) = (sockets s i \<noteq> None)"
| "enabled s (IceCandidateMsg i payload) = (sockets s i \<noteq> None)"
| "enabled s (Disconnect i) = (sockets s i \<noteq> None)"

fun step :: "server \<Rightarrow> input \<Rightarrow> failure + server \<times> emission list" where
  "step s (Connect i auth_name) = Inr (connect i auth_name s, [])"
| "step s (Join i now payload) = on_join i now payload s"
| "step s (ChatMsg i payload) = on_chat i payload s"
| "step s (OfferMsg i payload) = on_offer i payload s"
| "step s (AnswerMsg i payload) = on_answer i payload s"
| "step s (IceCandidateMsg i payload) = on_ice_candidate i payload s"
| "step s (Disconnect i) = Inr (disconnect i s)"

text \<open>A run handles the inputs in order and collects the emissions; it has no result
  when an input cannot be delivered or a listener throws.\<close>

fun run :: "server \<Rightarrow> input list \<Rightarrow> (server \<times> emission list) option" where
  "run s [] = Some (s, [])"
| "run s (x # xs) =
     (if enabled s x then
        (case step s x of
           Inl e \<Rightarrow> None
         | Inr (s', out) \<Rightarrow>
             (case run s' xs of
                None \<Rightarrow> None
              | Some (s'', outs) \<Rightarrow> Some (s'', out @ outs)))
      else None)"

text \<open>The clock of a run is sound when no \<open>Date.now()\<close> in it returned 0.\<close>

fun clock_ok :: "input \<Rightarrow> bool" where
  "clock_ok (Join i now payload) = (now \<noteq> 0)"
| "clock_ok x = True"

section \<open>Well-formed states\<close>

text \<open>
  The adapter keeps its two maps in step: a room's member set has no duplicates, every
  member is a live socket, and a socket is in a room exactly when the room is among the
  socket's rooms.
\<close>

definition adapter_ok :: "server \<Rightarrow> bool" where
  "adapter_ok s \<longleftrightarrow>
     (\<forall>r. distinct (members s r)) \<and>
     (\<forall>r i. i \<in> set (members s r) \<longrightarrow> sockets s i \<noteq> None) \<and>
     (\<forall>r i. r \<in> set (socket_rooms s i) \<longleftrightarrow> i \<in> set (members s r))"

text \<open>
  What the join listener maintains of the timer: a room with two or more members has a
  record whose timer has started; a stored timestamp is never 0; only names that passed
  the listener's validation have a record.
\<close>

definition timer_ok :: "server \<Rightarrow> bool" where
  "timer_ok s \<longleftrightarrow>
     (\<forall>r. 2 \<le> length (members s r) \<longrightarrow>
          (\<exists>roomState. rooms s r = Some roomState \<and> \<not> not_started (startedAt roomState))) \<and>
     (\<forall>r roomState. rooms s r = Some roomState \<longrightarrow>
          startedAt roomState \<noteq> Some 0 \<and> r \<noteq> [] \<and> r \<notin> set Object_prototype_names)"

text \<open>
  The pieces of a join on a room name that is not an inherited property name: the record
  the listener works on, whether the timer rule fires, and the state it leaves.
\<close>

definition joined_record :: "server \<Rightarrow> string \<Rightarrow> RoomState" where
  "joined_record s room =
     (case rooms s room of None \<Rightarrow> \<lparr>startedAt = None, duration = 60\<rparr> | Some roomState \<Rightarrow> roomState)"

definition timer_fires :: "sid \<Rightarrow> string \<Rightarrow> server \<Rightarrow> bool" where
  "timer_fires i room s \<longleftrightarrow>
     2 \<le> length (members (socket_join i room s) room) \<and>
     not_started (startedAt (joined_record s room))"

definition joined_state :: "sid \<Rightarrow> int \<Rightarrow> string \<Rightarrow> server \<Rightarrow> server" where
  "joined_state i now room s =
     (socket_join i room s)
       \<lparr>rooms := (rooms s)(room \<mapsto>
          (if timer_fires i room s then (joined_record s room)\<lparr>startedAt := Some now\<rparr>
           else joined_record s room))\<rparr>"

section \<open>Observing runs\<close>

text \<open>The state and the emissions of a run from the initial state.\<close>

definition state_after :: "input list \<Rightarrow> server" where
  "state_after xs = (case run init xs of Some (s, outs) \<Rightarrow> s | None \<Rightarrow> init)"

definition output_of :: "input list \<Rightarrow> emission list" where
  "output_of xs = (case run init xs of Some (s, outs) \<Rightarrow> outs | None \<Rightarrow> [])"

fun is_timer_state :: "event \<Rightarrow> bool" where
  "is_timer_state (TimerState t d) = True"
| "is_timer_state e = False"

fun is_timer_start :: "event \<Rightarrow> bool" where
  "is_timer_start (TimerStart t d) = True"
| "is_timer_start e = False"

text \<open>The \<open>timer-start\<close> emissions addressed to a room.\<close>

definition timer_starts :: "string \<Rightarrow> emission list \<Rightarrow> emission list" where
  "timer_starts room out =
     filter (\<lambda>e. target e = Io_to (JStr room) \<and> is_timer_start (ev e)) out"

text \<open>\<open>rooms[room]?.startedAt\<close>, \<open>None\<close> when there is no record or no timestamp.\<close>

definition room_startedAt :: "server \<Rightarrow> string \<Rightarrow> int option" where
  "room_startedAt s room = (case rooms s room of None \<Rightarrow> None | Some roomState \<Rightarrow> startedAt roomState)"


text \<open>A run used for examples: \<open>A\<close> (named Ann) and \<open>B\<close> connect and join room \<open>r1\<close>.\<close>

definition two_in_room :: "input list" where
  "two_in_room =
     [Connect ''A'' (JStr ''Ann''), Connect ''B'' JUndefined,
      Join ''A'' 100 (JObj [(''room'', JStr ''r1'')]),
      Join ''B'' 200 (JObj [(''room'', JStr ''r1'')])]"

section \<open>The adapter operations\<close>

lemma members_socket_join:
  "members (socket_join i r s) r' = (if r' = r then set_add i (members s r) else members s r')"
  by (simp add: socket_join_def members_def)

lemma socket_rooms_socket_join:
  "socket_rooms (socket_join i r s) j = (if j = i then set_add r (socket_rooms s i) else socket_rooms s j)"
  by (simp add: socket_join_def socket_rooms_def update_conv')

lemma sockets_socket_join: "sockets (socket_join i r s) = sockets s"
  by (simp add: socket_join_def)

lemma rooms_socket_join: "rooms (socket_join i r s) = rooms s"
  by (simp add: socket_join_def)

lemma set_set_add: "set (set_add x xs) = insert x (set xs)"
  by (auto simp: set_add_def)

lemma distinct_set_add: "distinct xs \<Longrightarrow> distinct (set_add x xs)"
  by (simp add: set_add_def)

lemma members_adapter_del:
  "members (adapter_del i room s) r = (if r = room then removeAll i (members s r) else members s r)"
  by (auto simp: adapter_del_def members_def Let_def split: option.splits)

lemma adapter_del_fields:
  "sockets (adapter_del i room s) = sockets s"
  "sids (adapter_del i room s) = sids s"
  "rooms (adapter_del i room s) = rooms s"
  by (auto simp: adapter_del_def Let_def split: option.splits)

lemma fold_adapter_del_fields:
  "sockets (fold (adapter_del i) rs s) = sockets s"
  "sids (fold (adapter_del i) rs s) = sids s"
  "rooms (fold (adapter_del i) rs s) = rooms s"
  by (induction rs arbitrary: s) (simp_all add: adapter_del_fields)

lemma members_fold_adapter_del:
  "members (fold (adapter_del i) rs s) r = (if r \<in> set rs then removeAll i (members s r) else members s r)"
  by (induction rs arbitrary: s) (auto simp: members_adapter_del)

lemma members_sids_update: "members (s\<lparr>sids := x\<rparr>) r = members s r"
  by (simp add: members_def)

lemma members_sockets_update: "members (s\<lparr>sockets := x\<rparr>) r = members s r"
  by (simp add: members_def)

lemma members_rooms_update: "members (s\<lparr>rooms := x\<rparr>) r = members s r"
  by (simp add: members_def)

lemma socket_rooms_sockets_update: "socket_rooms (s\<lparr>sockets := x\<rparr>) i = socket_rooms s i"
  by (simp add: socket_rooms_def)

lemma socket_rooms_rooms_update: "socket_rooms (s\<lparr>rooms := x\<rparr>) i = socket_rooms s i"
  by (simp add: socket_rooms_def)

lemma members_leaveAll:
  "members (leaveAll i s) r = (if r \<in> set (socket_rooms s i) then removeAll i (members s r) else members s r)"
  by (simp add: leaveAll_def members_sids_update members_fold_adapter_del)

lemma socket_rooms_leaveAll:
  "socket_rooms (leaveAll i s) j = (if j = i then [] else socket_rooms s j)"
  by (simp add: leaveAll_def socket_rooms_def delete_conv')

lemma leaveAll_fields:
  "sockets (leaveAll i s) = sockets s"
  "rooms (leaveAll i s) = rooms s"
  by (simp_all add: leaveAll_def fold_adapter_del_fields)

lemma disconnecting_loop_nonempty:
  "(\<And>r. r \<in> set rs \<Longrightarrow> r \<noteq> i \<Longrightarrow> members s r \<noteq> []) \<Longrightarrow>
   disconnecting_loop i rs s = (s, map (\<lambda>r. broadcastParticipants r s) (filter (\<lambda>r. r \<noteq> i) rs))"
  by (induction rs) (auto simp: Let_def)

lemma adapter_ok_init: "adapter_ok init"
  by (simp add: adapter_ok_def init_def members_def socket_rooms_def)

lemma timer_ok_init: "timer_ok init"
  by (simp add: timer_ok_def init_def members_def)

lemma adapter_ok_rooms_update: "adapter_ok (s\<lparr>rooms := x\<rparr>) = adapter_ok s"
  by (simp add: adapter_ok_def members_rooms_update socket_rooms_rooms_update)

lemma adapter_ok_socket_join:
  assumes "adapter_ok s" and "sockets s i \<noteq> None"
  shows "adapter_ok (socket_join i r s)"
  using assms unfolding adapter_ok_def
  by (auto simp: members_socket_join socket_rooms_socket_join sockets_socket_join
        set_set_add distinct_set_add)

lemma adapter_ok_connect:
  assumes "adapter_ok s"
  shows "adapter_ok (connect i a s)"
proof -
  let ?s = "s\<lparr>sockets := (sockets s)(i \<mapsto> a)\<rparr>"
  have "adapter_ok ?s"
    using assms unfolding adapter_ok_def
    by (auto simp: members_sockets_update socket_rooms_sockets_update)
  then show ?thesis
    unfolding connect_def by (rule adapter_ok_socket_join) simp
qed

lemma on_disconnecting_ok:
  assumes "adapter_ok s"
  shows "on_disconnecting i s =
           (s, map (\<lambda>r. broadcastParticipants r s) (filter (\<lambda>r. r \<noteq> i) (socket_rooms s i)))"
  unfolding on_disconnecting_def
proof (rule disconnecting_loop_nonempty)
  fix r assume "r \<in> set (socket_rooms s i)"
  with assms have "i \<in> set (members s r)" by (simp add: adapter_ok_def)
  then show "members s r \<noteq> []" by auto
qed

lemma disconnect_ok:
  assumes "adapter_ok s"
  shows "disconnect i s =
           ((leaveAll i s)\<lparr>sockets := (sockets s)(i := None)\<rparr>,
            map (\<lambda>r. broadcastParticipants r s) (filter (\<lambda>r. r \<noteq> i) (socket_rooms s i)))"
  by (simp add: disconnect_def on_disconnecting_ok[OF assms] leaveAll_fields)

lemma adapter_ok_disconnect:
  assumes "adapter_ok s"
  shows "adapter_ok (fst (disconnect i s))"
  using assms unfolding disconnect_ok[OF assms] adapter_ok_def
  by (auto simp: members_sockets_update socket_rooms_sockets_update members_leaveAll
        socket_rooms_leaveAll distinct_removeAll split: if_splits)

lemma rooms_disconnect:
  assumes "adapter_ok s"
  shows "rooms (fst (disconnect i s)) = rooms s"
  by (simp add: disconnect_ok[OF assms] leaveAll_fields)

lemma length_members_disconnect:
  assumes "adapter_ok s"
  shows "length (members (fst (disconnect i s)) r) \<le> length (members s r)"
  by (simp add: disconnect_ok[OF assms] members_sockets_update members_leaveAll
        length_removeAll_less_eq)

lemma timer_ok_disconnect:
  assumes "adapter_ok s" and "timer_ok s"
  shows "timer_ok (fst (disconnect i s))"
  using assms(2) length_members_disconnect[OF assms(1), of i]
  unfolding timer_ok_def rooms_disconnect[OF assms(1)]
  by (meson order_trans)

lemma timer_ok_connect:
  assumes "timer_ok s" and "adapterRooms s i = None"
  shows "timer_ok (connect i a s)"
proof -
  have m: "members s i = []" using assms(2) by (simp add: members_def)
  have "members (connect i a s) r = (if r = i then [i] else members s r)" for r
    by (simp add: connect_def members_socket_join members_sockets_update m set_add_def)
  moreover have "rooms (connect i a s) = rooms s"
    by (simp add: connect_def rooms_socket_join)
  ultimately show ?thesis using assms(1) by (simp add: timer_ok_def)
qed

lemma join_room_eq:
  assumes "rooms_get s room \<noteq> Inherited"
  shows "join_room i now room s =
     Inr (joined_state i now room s,
          (if timer_fires i room s
           then [io_to_emit (JStr room) (TimerStart now (duration (joined_record s room)))
                   (joined_state i now room s)]
           else []) @
          [socket_emit i (TimerState
             (if timer_fires i room s then Some now else startedAt (joined_record s room))
             (duration (joined_record s room))),
           socket_to_emit i room (NeedOffer i) (joined_state i now room s),
           broadcastParticipants room (joined_state i now room s)])"
proof (cases "rooms s room")
  case None
  with assms have g: "rooms_get (socket_join i room s) room = Missing"
    by (auto simp: rooms_get_def rooms_socket_join split: if_splits)
  show ?thesis
    using None
    by (simp add: join_room_def init_room_def g timer_rule_def timer_state_def
          joined_state_def joined_record_def timer_fires_def rooms_socket_join
          members_rooms_update Let_def)
next
  case (Some roomState)
  then have g: "rooms_get (socket_join i room s) room = Record roomState"
    by (simp add: rooms_get_def rooms_socket_join)
  have idem: "(socket_join i room s)\<lparr>rooms := (rooms s)(room \<mapsto> roomState)\<rparr> = socket_join i room s"
    using Some by (simp add: socket_join_def fun_upd_idem)
  show ?thesis
    using Some
    by (simp add: join_room_def init_room_def g timer_rule_def timer_state_def
          joined_state_def joined_record_def timer_fires_def rooms_socket_join
          members_rooms_update Let_def idem)
qed

lemma join_room_Inr:
  assumes "join_room i now room s = Inr (s', out)"
  shows "rooms_get s room \<noteq> Inherited"
proof
  assume "rooms_get s room = Inherited"
  then have "rooms_get (socket_join i room s) room = Inherited"
    by (simp add: rooms_get_def rooms_socket_join)
  with assms show False by (simp add: join_room_def init_room_def)
qed

lemma on_join_cases:
  assumes "on_join i now payload s = Inr (s', out)"
  shows "(s' = s \<and> out = []) \<or>
         (\<exists>r. get_prop payload ''room'' = JStr r \<and> r \<noteq> [] \<and> join_room i now r s = Inr (s', out))"
  using assms
  by (auto simp: on_join_def destructure_def Let_def split: if_splits jsval.splits)


lemma relay_state:
  assumes "relay body mk i payload s = Inr (s', out)"
  shows "s' = s"
  using assms by (auto simp: relay_def destructure_def Let_def split: if_splits)

lemma on_chat_state:
  assumes "on_chat i payload s = Inr (s', out)"
  shows "s' = s"
  using assms by (auto simp: on_chat_def destructure_def Let_def split: if_splits)

lemma members_joined_state:
  "members (joined_state i now room s) r = (if r = room then set_add i (members s room) else members s r)"
  by (simp add: joined_state_def members_rooms_update members_socket_join)


lemma rooms_joined_state:
  "rooms (joined_state i now room s) =
     (rooms s)(room \<mapsto>
        (if timer_fires i room s then (joined_record s room)\<lparr>startedAt := Some now\<rparr>
         else joined_record s room))"
  by (simp add: joined_state_def)

lemma adapter_ok_joined_state:
  assumes "adapter_ok s" and "sockets s i \<noteq> None"
  shows "adapter_ok (joined_state i now room s)"
  unfolding joined_state_def adapter_ok_rooms_update
  using assms by (rule adapter_ok_socket_join)

lemma timer_ok_joined_state:
  assumes "timer_ok s" and "now \<noteq> 0" and "room \<noteq> []" and "rooms_get s room \<noteq> Inherited"
  shows "timer_ok (joined_state i now room s)"
proof -
  have names: "rooms s room = None \<Longrightarrow> room \<notin> set Object_prototype_names"
    using assms(4) by (auto simp: rooms_get_def split: if_splits)
  have old: "rooms s room = Some roomState \<Longrightarrow> startedAt roomState \<noteq> Some 0" for roomState
    using assms(1) by (simp add: timer_ok_def)
  have rec0: "startedAt (joined_record s room) \<noteq> Some 0"
    using old by (auto simp: joined_record_def split: option.splits)
  have part1: "\<exists>roomState. rooms (joined_state i now room s) r = Some roomState \<and>
                 \<not> not_started (startedAt roomState)"
    if "2 \<le> length (members (joined_state i now room s) r)" for r
  proof (cases "r = room")
    case True
    with that have two: "2 \<le> length (members (socket_join i room s) room)"
      by (simp add: members_joined_state members_socket_join)
    show ?thesis
    proof (cases "timer_fires i room s")
      case True
      with \<open>r = room\<close> assms(2) show ?thesis by (simp add: rooms_joined_state)
    next
      case False
      with two have "\<not> not_started (startedAt (joined_record s room))"
        by (simp add: timer_fires_def)
      with False \<open>r = room\<close> show ?thesis by (simp add: rooms_joined_state)
    qed
  next
    case False
    with that assms(1) show ?thesis
      by (simp add: members_joined_state rooms_joined_state timer_ok_def)
  qed
  have part2: "startedAt roomState \<noteq> Some 0 \<and> r \<noteq> [] \<and> r \<notin> set Object_prototype_names"
    if "rooms (joined_state i now room s) r = Some roomState" for r roomState
  proof (cases "r = room")
    case True
    have "r \<notin> set Object_prototype_names"
    proof (cases "rooms s room")
      case None
      with names True show ?thesis by simp
    next
      case (Some a)
      with assms(1) True show ?thesis by (simp add: timer_ok_def)
    qed
    moreover have "startedAt roomState \<noteq> Some 0"
      using that True rec0 assms(2) by (auto simp: rooms_joined_state split: if_splits)
    ultimately show ?thesis using True assms(3) by simp
  next
    case False
    with that assms(1) show ?thesis by (simp add: rooms_joined_state timer_ok_def)
  qed
  show ?thesis unfolding timer_ok_def using part1 part2 by blast
qed

lemma step_adapter_ok:
  assumes "adapter_ok s" and "enabled s x" and "step s x = Inr (s', out)"
  shows "adapter_ok s'"
proof (cases x)
  case (Connect i a)
  with assms show ?thesis by (auto intro: adapter_ok_connect)
next
  case (Join i now payload)
  with assms have j: "on_join i now payload s = Inr (s', out)" and live: "sockets s i \<noteq> None"
    by simp_all
  from on_join_cases[OF j] show ?thesis
  proof
    assume "s' = s \<and> out = []"
    with assms(1) show ?thesis by simp
  next
    assume "\<exists>r. get_prop payload ''room'' = JStr r \<and> r \<noteq> [] \<and> join_room i now r s = Inr (s', out)"
    then obtain r where r: "join_room i now r s = Inr (s', out)" by blast
    from r join_room_eq[OF join_room_Inr[OF r], of i now]
    have "s' = joined_state i now r s" by simp
    with assms(1) live show ?thesis by (simp add: adapter_ok_joined_state)
  qed
next
  case (ChatMsg i payload)
  with assms show ?thesis by (auto dest: on_chat_state)
next
  case (OfferMsg i payload)
  with assms show ?thesis by (auto simp: on_offer_def dest: relay_state)
next
  case (AnswerMsg i payload)
  with assms show ?thesis by (auto simp: on_answer_def dest: relay_state)
next
  case (IceCandidateMsg i payload)
  with assms show ?thesis by (auto simp: on_ice_candidate_def dest: relay_state)
next
  case (Disconnect i)
  with assms adapter_ok_disconnect[OF assms(1), of i] show ?thesis by auto
qed

lemma step_timer_ok:
  assumes "adapter_ok s" and "timer_ok s" and "enabled s x" and "clock_ok x"
    and "step s x = Inr (s', out)"
  shows "timer_ok s'"
proof (cases x)
  case (Connect i a)
  with assms show ?thesis by (auto intro: timer_ok_connect)
next
  case (Join i now payload)
  with assms have j: "on_join i now payload s = Inr (s', out)" and now: "now \<noteq> 0"
    by simp_all
  from on_join_cases[OF j] show ?thesis
  proof
    assume "s' = s \<and> out = []"
    with assms(2) show ?thesis by simp
  next
    assume "\<exists>r. get_prop payload ''room'' = JStr r \<and> r \<noteq> [] \<and> join_room i now r s = Inr (s', out)"
    then obtain r where r: "join_room i now r s = Inr (s', out)" and ne: "r \<noteq> []" by blast
    from r join_room_eq[OF join_room_Inr[OF r], of i now]
    have "s' = joined_state i now r s" by simp
    with assms(2) now ne join_room_Inr[OF r] show ?thesis by (simp add: timer_ok_joined_state)
  qed
next
  case (ChatMsg i payload)
  with assms show ?thesis by (auto dest: on_chat_state)
next
  case (OfferMsg i payload)
  with assms show ?thesis by (auto simp: on_offer_def dest: relay_state)
next
  case (AnswerMsg i payload)
  with assms show ?thesis by (auto simp: on_answer_def dest: relay_state)
next
  case (IceCandidateMsg i payload)
  with assms show ?thesis by (auto simp: on_ice_candidate_def dest: relay_state)
next
  case (Disconnect i)
  with assms timer_ok_disconnect[OF assms(1,2), of i] show ?thesis by auto
qed

lemma run_ConsE:
  assumes "run s (x # xs) = Some (s', outs)"
  obtains s1 out outs1 where "enabled s x" and "step s x = Inr (s1, out)"
    and "run s1 xs = Some (s', outs1)" and "outs = out @ outs1"
  using assms by (auto split: if_splits sum.splits option.splits)

lemma run_adapter_ok:
  assumes "adapter_ok s" and "run s xs = Some (s', outs)"
  shows "adapter_ok s'"
  using assms
proof (induction xs arbitrary: s outs)
  case Nil
  then show ?case by simp
next
  case (Cons x xs)
  from Cons.prems(2) obtain s1 out outs1 where
    "enabled s x" "step s x = Inr (s1, out)" "run s1 xs = Some (s', outs1)"
    by (rule run_ConsE)
  with Cons.prems(1) Cons.IH[of s1 outs1] show ?case
    by (blast dest: step_adapter_ok)
qed

lemma run_timer_ok:
  assumes "adapter_ok s" and "timer_ok s" and "run s xs = Some (s', outs)" and "list_all clock_ok xs"
  shows "timer_ok s'"
  using assms
proof (induction xs arbitrary: s outs)
  case Nil
  then show ?case by simp
next
  case (Cons x xs)
  from Cons.prems(3) obtain s1 out outs1 where
    st: "enabled s x" "step s x = Inr (s1, out)" "run s1 xs = Some (s', outs1)"
    by (rule run_ConsE)
  from Cons.prems(4) have c: "clock_ok x" "list_all clock_ok xs" by simp_all
  have "adapter_ok s1" using Cons.prems(1) st(1,2) by (rule step_adapter_ok)
  moreover have "timer_ok s1" using Cons.prems(1,2) st(1) c(1) st(2) by (rule step_timer_ok)
  ultimately show ?case using Cons.IH st(3) c(2) by blast
qed

section \<open>Broadcasts and text\<close>







section \<open>Participants broadcast on disconnect\<close>

text \<open>
  C1. The participants event emitted after a join, leave or disconnect carries exactly the
  room's current membership, and no connection that is disconnecting appears in it.
  The code does not do this on disconnect: \<open>broadcastParticipants\<close> reads the room while the
  closing socket is still a member. With \<open>A\<close> and \<open>B\<close> in room \<open>r1\<close>, the event emitted
  when \<open>A\<close> disconnects lists \<open>A\<close> and \<open>B\<close>, and the room's membership afterwards is \<open>B\<close>
  alone.
\<close>

theorem disconnect_broadcast_lists_leaver:
  "map_option (\<lambda>(s, out). (members s ''r1'', last out))
     (run init
        [Connect ''A'' (JStr ''Ann''), Connect ''B'' JUndefined,
         Join ''A'' 100 (JObj [(''room'', JStr ''r1'')]),
         Join ''B'' 200 (JObj [(''room'', JStr ''r1'')]),
         Disconnect ''A'']) =
   Some ([''B''],
         \<lparr>target = Io_to (JStr ''r1''), receivers = [''A'', ''B''],
          ev = Participants [(''A'', ''Ann''), (''B'', ''Guest'')]\<rparr>)"
  by code_simp

section \<open>Room records of empty rooms\<close>

text \<open>
  C2. When a room's membership reaches zero its record is removed from the room store, so
  that a later join to the same id finds no leftover state.
  The code does not do this: the listener tests the room's size while the closing socket
  is still in it, so the size is never 0. After \<open>A\<close> and \<open>B\<close> have joined \<open>r1\<close> and both
  have disconnected, the room has no member and its record is still stored, with the
  timestamp of the old meeting; \<open>C\<close>, joining afterwards, is sent that timestamp.
\<close>

theorem empty_room_record_kept:
  "map_option (\<lambda>(s, out). (members s ''r1'', rooms_get s ''r1''))
     (run init
        [Connect ''A'' JUndefined, Connect ''B'' JUndefined,
         Join ''A'' 100 (JObj [(''room'', JStr ''r1'')]),
         Join ''B'' 200 (JObj [(''room'', JStr ''r1'')]),
         Disconnect ''A'', Disconnect ''B'']) =
   Some ([], Record \<lparr>startedAt = Some 200, duration = 60\<rparr>) \<and>
   map_option (\<lambda>(s, out). filter (\<lambda>e. is_timer_state (ev e)) (drop 9 out))
     (run init
        [Connect ''A'' JUndefined, Connect ''B'' JUndefined,
         Join ''A'' 100 (JObj [(''room'', JStr ''r1'')]),
         Join ''B'' 200 (JObj [(''room'', JStr ''r1'')]),
         Disconnect ''A'', Disconnect ''B'',
         Connect ''C'' JUndefined,
         Join ''C'' 900 (JObj [(''room'', JStr ''r1'')])]) =
   Some [\<lparr>target = Socket_emit ''C'', receivers = [''C''], ev = TimerState (Some 200) 60\<rparr>]"
  by code_simp

section \<open>The timer state sent to a joiner\<close>



section \<open>Chat\<close>





section \<open>Joins in reachable states\<close>

lemma room_startedAt_joined_record: "startedAt (joined_record s room) = room_startedAt s room"
  by (simp add: joined_record_def room_startedAt_def split: option.splits)





section \<open>The join listener\<close>







section \<open>Messages that are dropped\<close>



text \<open>Two cases the statement below does not cover: a listener called without an argument
  object throws, and a target that is an array is taken as a list of rooms.\<close>

lemma listener_throws_without_argument:
  "on_join i now JUndefined s = Inl TypeError" and "on_chat i JNull s = Inl TypeError"
  and "on_offer i JUndefined s = Inl TypeError"
  by (simp_all add: on_join_def on_chat_def on_offer_def relay_def destructure_def)

lemma array_target_is_relayed:
  "on_offer ''A'' (JObj [(''to'', JArr [JStr ''B'']), (''sdp'', JStr ''x'')]) (state_after two_in_room) =
     Inr (state_after two_in_room,
          [\<lparr>target = Io_to (JArr [JStr ''B'']), receivers = [''B''], ev = Offer ''A'' (JStr ''x'')\<rparr>])"
proof -
  have "broadcast_to (state_after two_in_room) (JArr [JStr ''B'']) [] = [''B'']" by code_simp
  then show ?thesis by (simp add: on_offer_def relay_def destructure_def io_to_emit_def)
qed




section \<open>The timer over a run\<close>

lemma run_snoc:
  assumes "run s xs = Some (s1, outs)" and "enabled s1 x" and "step s1 x = Inr (s2, out)"
  shows "run s (xs @ [x]) = Some (s2, outs @ out)"
  using assms
proof (induction xs arbitrary: s outs)
  case Nil
  then show ?case by simp
next
  case (Cons y ys)
  from Cons.prems(1) obtain s' o1 o2 where
    a: "enabled s y" "step s y = Inr (s', o1)" "run s' ys = Some (s1, o2)" "outs = o1 @ o2"
    by (rule run_ConsE)
  from Cons.IH[OF a(3) Cons.prems(2,3)] a(1,2,4) show ?case by simp
qed

lemma run_append:
  "run s (xs @ ys) =
     (case run s xs of
        None \<Rightarrow> None
      | Some (s1, o1) \<Rightarrow>
          (case run s1 ys of None \<Rightarrow> None | Some (s2, o2) \<Rightarrow> Some (s2, o1 @ o2)))"
proof (induction xs arbitrary: s)
  case Nil
  then show ?case by (simp split: option.splits)
next
  case (Cons x xs)
  then show ?case by (simp split: option.splits sum.splits)
qed

lemma step_state_after:
  assumes "run init (xs @ [x]) \<noteq> None"
  shows "run init xs = Some (state_after xs, output_of xs)"
    and "enabled (state_after xs) x"
    and "step (state_after xs) x =
           Inr (state_after (xs @ [x]), drop (length (output_of xs)) (output_of (xs @ [x])))"
proof -
  from assms obtain s1 o1 where r1: "run init xs = Some (s1, o1)"
    by (auto simp: run_append split: option.splits)
  with assms obtain s2 o2 where r2: "run s1 [x] = Some (s2, o2)"
    by (auto simp: run_append split: option.splits)
  then have e: "enabled s1 x" and st: "step s1 x = Inr (s2, o2)"
    by (auto split: if_splits sum.splits)
  have sa: "state_after xs = s1" "output_of xs = o1"
    using r1 by (simp_all add: state_after_def output_of_def)
  have sb: "state_after (xs @ [x]) = s2" "output_of (xs @ [x]) = o1 @ o2"
    using r1 r2 by (simp_all add: state_after_def output_of_def run_append)
  show "run init xs = Some (state_after xs, output_of xs)" using r1 sa by simp
  show "enabled (state_after xs) x" using e sa by simp
  show "step (state_after xs) x =
          Inr (state_after (xs @ [x]), drop (length (output_of xs)) (output_of (xs @ [x])))"
    using st sa sb by simp
qed

lemma timer_starts_append: "timer_starts r (xs @ ys) = timer_starts r xs @ timer_starts r ys"
  by (simp add: timer_starts_def)

lemma timer_starts_relay:
  assumes "relay body mk i payload s = Inr (s', out)" and "\<And>d. \<not> is_timer_start (mk i d)"
  shows "timer_starts r out = []"
  using assms
  by (auto simp: relay_def destructure_def Let_def timer_starts_def io_to_emit_def split: if_splits)

lemma timer_starts_chat:
  assumes "on_chat i payload s = Inr (s', out)"
  shows "timer_starts r out = []"
  using assms
  by (auto simp: on_chat_def destructure_def Let_def timer_starts_def io_to_emit_def split: if_splits)

lemma timer_starts_disconnect:
  assumes "adapter_ok s"
  shows "timer_starts r (snd (disconnect i s)) = []"
  by (simp add: disconnect_ok[OF assms] timer_starts_def broadcastParticipants_def
        io_to_emit_def filter_empty_conv)

lemma room_startedAt_joined_state:
  "room_startedAt (joined_state i now room s) r =
     (if r = room \<and> timer_fires i room s then Some now else room_startedAt s r)"
  by (simp add: room_startedAt_def rooms_joined_state joined_record_def split: option.splits)

lemma timer_fires_fresh:
  assumes "timer_ok s" and "timer_fires i room s"
  shows "room_startedAt s room = None" and "length (members s room) < 2"
proof -
  from assms(2) have ns: "not_started (room_startedAt s room)"
    by (simp add: timer_fires_def room_startedAt_joined_record)
  show n: "room_startedAt s room = None"
  proof (cases "room_startedAt s room")
    case None
    then show ?thesis .
  next
    case (Some t)
    with ns have "t = 0" by simp
    with Some assms(1) show ?thesis
      by (auto simp: timer_ok_def room_startedAt_def split: option.splits)
  qed
  show "length (members s room) < 2"
  proof (rule ccontr)
    assume "\<not> length (members s room) < 2"
    then have "2 \<le> length (members s room)" by simp
    with assms(1) have "\<exists>roomState. rooms s room = Some roomState \<and>
        \<not> not_started (startedAt roomState)"
      unfolding timer_ok_def by blast
    with n show False by (auto simp: room_startedAt_def)
  qed
qed

text \<open>One step: a timestamp that is set stays, a record that exists stays, and a
  \<open>timer-start\<close> for a room comes only from a join that brings the room to two members
  while its timer has not started.\<close>

lemma step_timer:
  assumes "adapter_ok s" and "timer_ok s" and "enabled s x" and "clock_ok x"
    and "step s x = Inr (s', out)"
  shows "(\<forall>t. room_startedAt s r = Some t \<longrightarrow> room_startedAt s' r = Some t) \<and>
         (rooms s r \<noteq> None \<longrightarrow> rooms s' r \<noteq> None) \<and>
         length (timer_starts r out) \<le> 1 \<and>
         (timer_starts r out \<noteq> [] \<longrightarrow>
            room_startedAt s r = None \<and> room_startedAt s' r \<noteq> None \<and>
            (\<exists>i now payload. x = Join i now payload \<and> get_prop payload ''room'' = JStr r \<and>
               length (members s r) < 2 \<and> 2 \<le> length (members s' r)))"
proof (cases x)
  case (Connect i a)
  with assms(5) have "rooms s' = rooms s" and "out = []"
    by (auto simp: connect_def rooms_socket_join)
  then show ?thesis by (simp add: room_startedAt_def timer_starts_def)
next
  case (Join i now payload)
  with assms have j: "on_join i now payload s = Inr (s', out)" by simp
  from on_join_cases[OF j] show ?thesis
  proof
    assume "s' = s \<and> out = []"
    then show ?thesis by (simp add: timer_starts_def)
  next
    assume "\<exists>room. get_prop payload ''room'' = JStr room \<and> room \<noteq> [] \<and>
              join_room i now room s = Inr (s', out)"
    then obtain room where p: "get_prop payload ''room'' = JStr room"
      and jr: "join_room i now room s = Inr (s', out)" by blast
    note eq = jr[unfolded join_room_eq[OF join_room_Inr[OF jr], of i now]]
    from eq have s': "s' = joined_state i now room s" by simp
    from eq have ts: "timer_starts r out =
        (if timer_fires i room s \<and> r = room
         then [io_to_emit (JStr room) (TimerStart now (duration (joined_record s room))) s'] else [])"
      by (auto simp: timer_starts_def io_to_emit_def socket_emit_def socket_to_emit_def
            broadcastParticipants_def)
    have keep: "\<forall>t. room_startedAt s r = Some t \<longrightarrow> room_startedAt s' r = Some t"
      using timer_fires_fresh(1)[OF assms(2)]
      by (auto simp: s' room_startedAt_joined_state)
    have rec: "rooms s r \<noteq> None \<longrightarrow> rooms s' r \<noteq> None"
      by (simp add: s' rooms_joined_state)
    have fire: "timer_starts r out \<noteq> [] \<longrightarrow>
            room_startedAt s r = None \<and> room_startedAt s' r \<noteq> None \<and>
            (\<exists>i now payload. x = Join i now payload \<and> get_prop payload ''room'' = JStr r \<and>
               length (members s r) < 2 \<and> 2 \<le> length (members s' r))"
    proof
      assume "timer_starts r out \<noteq> []"
      with ts have f: "timer_fires i room s" and r: "r = room" by (auto split: if_splits)
      from f have two: "2 \<le> length (members s' r)"
        by (simp add: timer_fires_def s' r members_joined_state members_socket_join)
      from timer_fires_fresh[OF assms(2) f] f two p Join
      show "room_startedAt s r = None \<and> room_startedAt s' r \<noteq> None \<and>
            (\<exists>i now payload. x = Join i now payload \<and> get_prop payload ''room'' = JStr r \<and>
               length (members s r) < 2 \<and> 2 \<le> length (members s' r))"
        by (simp add: r s' room_startedAt_joined_state)
    qed
    from ts have "length (timer_starts r out) \<le> 1" by simp
    with keep rec fire show ?thesis by blast
  qed
next
  case (ChatMsg i payload)
  with assms(5) have "s' = s" and "timer_starts r out = []"
    by (auto dest: on_chat_state timer_starts_chat)
  then show ?thesis by simp
next
  case (OfferMsg i payload)
  with assms(5) have "s' = s" and "timer_starts r out = []"
    by (auto simp: on_offer_def dest: relay_state timer_starts_relay)
  then show ?thesis by simp
next
  case (AnswerMsg i payload)
  with assms(5) have "s' = s" and "timer_starts r out = []"
    by (auto simp: on_answer_def dest: relay_state timer_starts_relay)
  then show ?thesis by simp
next
  case (IceCandidateMsg i payload)
  with assms(5) have "s' = s" and "timer_starts r out = []"
    by (auto simp: on_ice_candidate_def dest: relay_state timer_starts_relay)
  then show ?thesis by simp
next
  case (Disconnect i)
  with assms(5) have d: "disconnect i s = (s', out)" by simp
  then have "rooms s' = rooms s" and "timer_starts r out = []"
    using rooms_disconnect[OF assms(1), of i] timer_starts_disconnect[OF assms(1), of r i]
    by simp_all
  then show ?thesis by (simp add: room_startedAt_def)
qed

lemma run_timer_starts:
  assumes "adapter_ok s" and "timer_ok s" and "run s xs = Some (s', outs)"
    and "list_all clock_ok xs"
  shows "length (timer_starts r outs) \<le> 1 \<and>
         (room_startedAt s r \<noteq> None \<longrightarrow> timer_starts r outs = [])"
  using assms
proof (induction xs arbitrary: s outs)
  case Nil
  then show ?case by (simp add: timer_starts_def)
next
  case (Cons x xs)
  from Cons.prems(3) obtain s1 out outs1 where
    st: "enabled s x" "step s x = Inr (s1, out)" "run s1 xs = Some (s', outs1)"
    and outs: "outs = out @ outs1"
    by (rule run_ConsE)
  from Cons.prems(4) have c: "clock_ok x" "list_all clock_ok xs" by simp_all
  have ok1: "adapter_ok s1" using Cons.prems(1) st(1,2) by (rule step_adapter_ok)
  have tok1: "timer_ok s1" using Cons.prems(1,2) st(1) c(1) st(2) by (rule step_timer_ok)
  note one = step_timer[OF Cons.prems(1,2) st(1) c(1) st(2), of r]
  note rest = Cons.IH[OF ok1 tok1 st(3) c(2)]
  show ?case
  proof (cases "timer_starts r out = []")
    case True
    have "room_startedAt s r \<noteq> None \<longrightarrow> room_startedAt s1 r \<noteq> None"
      using one by auto
    with True rest show ?thesis by (simp add: outs timer_starts_append)
  next
    case False
    with one have "room_startedAt s r = None" and "room_startedAt s1 r \<noteq> None" by simp_all
    with rest one show ?thesis by (simp add: outs timer_starts_append)
  qed
qed

text \<open>
  C3. Over any run from the initial state with a sound clock, for every room: a
  \<open>startedAt\<close> that is set keeps its value in every later step and the record stays;
  at most one \<open>timer-start\<close> is emitted to the room in the whole run; and a step
  emits one only when it is a join to that room, the room's \<open>startedAt\<close> is none, and the
  join takes the membership count from below 2 to 2 or more.
\<close>

theorem timer_starts_once:
  assumes "run init xs = Some (s, outs)" and "list_all clock_ok xs"
    and "enabled s x" and "clock_ok x" and "step s x = Inr (s', out)"
  shows "(\<forall>t. room_startedAt s room = Some t \<longrightarrow> room_startedAt s' room = Some t) \<and>
         (rooms s room \<noteq> None \<longrightarrow> rooms s' room \<noteq> None) \<and>
         length (timer_starts room (outs @ out)) \<le> 1 \<and>
         (timer_starts room out \<noteq> [] \<longrightarrow>
            room_startedAt s room = None \<and>
            (\<exists>i now payload. x = Join i now payload \<and> get_prop payload ''room'' = JStr room \<and>
               length (members s room) < 2 \<and> 2 \<le> length (members s' room)))"
proof -
  have ok: "adapter_ok s" using adapter_ok_init assms(1) by (rule run_adapter_ok)
  have tok: "timer_ok s" using adapter_ok_init timer_ok_init assms(1,2) by (rule run_timer_ok)
  note one = step_timer[OF ok tok assms(3,4,5), of room]
  have "run init (xs @ [x]) = Some (s', outs @ out)"
    using assms(1,3,5) by (rule run_snoc)
  moreover have "list_all clock_ok (xs @ [x])" using assms(2,4) by simp
  ultimately have "length (timer_starts room (outs @ out)) \<le> 1"
    using run_timer_starts[OF adapter_ok_init timer_ok_init] by blast
  with one show ?thesis by blast
qed

theorem timer_starts_once_witness:
  "run init [Connect ''A'' (JStr ''Ann''), Connect ''B'' JUndefined,
             Join ''A'' 100 (JObj [(''room'', JStr ''r1'')])] =
     Some (state_after [Connect ''A'' (JStr ''Ann''), Connect ''B'' JUndefined,
                        Join ''A'' 100 (JObj [(''room'', JStr ''r1'')])],
           output_of [Connect ''A'' (JStr ''Ann''), Connect ''B'' JUndefined,
                      Join ''A'' 100 (JObj [(''room'', JStr ''r1'')])]) \<and>
   list_all clock_ok [Connect ''A'' (JStr ''Ann''), Connect ''B'' JUndefined,
                      Join ''A'' 100 (JObj [(''room'', JStr ''r1'')])] \<and>
   enabled (state_after [Connect ''A'' (JStr ''Ann''), Connect ''B'' JUndefined,
                         Join ''A'' 100 (JObj [(''room'', JStr ''r1'')])])
           (Join ''B'' 200 (JObj [(''room'', JStr ''r1'')])) \<and>
   clock_ok (Join ''B'' 200 (JObj [(''room'', JStr ''r1'')])) \<and>
   step (state_after [Connect ''A'' (JStr ''Ann''), Connect ''B'' JUndefined,
                      Join ''A'' 100 (JObj [(''room'', JStr ''r1'')])])
        (Join ''B'' 200 (JObj [(''room'', JStr ''r1'')])) =
     Inr (state_after two_in_room, drop 3 (output_of two_in_room)) \<and>
   timer_starts ''r1'' (drop 3 (output_of two_in_room)) \<noteq> [] \<and>
   length (timer_starts ''r1''
     (output_of [Connect ''A'' (JStr ''Ann''), Connect ''B'' JUndefined,
                 Join ''A'' 100 (JObj [(''room'', JStr ''r1'')])] @
      drop 3 (output_of two_in_room))) \<le> 1 \<and>
   room_startedAt (state_after [Connect ''A'' (JStr ''Ann''), Connect ''B'' JUndefined,
                                Join ''A'' 100 (JObj [(''room'', JStr ''r1'')])]) ''r1'' = None \<and>
   length (members (state_after [Connect ''A'' (JStr ''Ann''), Connect ''B'' JUndefined,
                                 Join ''A'' 100 (JObj [(''room'', JStr ''r1'')])]) ''r1'') < 2 \<and>
   2 \<le> length (members (state_after two_in_room) ''r1'')"
proof -
  let ?xs = "[Connect ''A'' (JStr ''Ann''), Connect ''B'' JUndefined,
              Join ''A'' 100 (JObj [(''room'', JStr ''r1'')])]"
  let ?x = "Join ''B'' 200 (JObj [(''room'', JStr ''r1'')])"
  have two: "?xs @ [?x] = two_in_room" by (simp add: two_in_room_def)
  have ne: "run init (?xs @ [?x]) \<noteq> None" unfolding two by code_simp
  note h1 = step_state_after(1)[OF ne]
  have h2: "list_all clock_ok ?xs" by simp
  note h3 = step_state_after(2)[OF ne]
  have h4: "clock_ok ?x" by simp
  have l: "length (output_of ?xs) = 3" by code_simp
  have h5: "step (state_after ?xs) ?x = Inr (state_after two_in_room, drop 3 (output_of two_in_room))"
    using step_state_after(3)[OF ne] unfolding two l .
  have f: "timer_starts ''r1'' (drop 3 (output_of two_in_room)) \<noteq> []" by code_simp
  from timer_starts_once[OF h1 h2 h3 h4 h5, of "''r1''"] f h1 h2 h3 h4 h5
  show ?thesis by blast
qed

end
